theory Spec2Isabelle
  imports Main "HOL-Library.Multiset"
begin

section \<open>The notebook ``RDDs vs. DataFrames What Gives''\<close>

text \<open>
  The notebook has three code cells: a word count written with the RDD API, the same word
  count written with the DataFrame API, and a conversion of an RDD to a DataFrame and back.
  Each cell is a straight sequence of framework calls. The calls are modelled by what they
  compute on the collected contents of a distributed collection, a list in the order in
  which \<open>collect\<close> returns it.

  A Python or Spark string is a \<^typ>\<open>string\<close>. The cells only compare characters with
  the space character and test a string for emptiness, and both read the same on the
  characters of a string as on its UTF-8 bytes.
\<close>

subsection \<open>Splitting a line\<close>

text \<open>
  \<open>line.split(" ")\<close> of Python and \<open>split(col("value"), " ")\<close> of Spark SQL (the
  pattern is a single literal space, the limit is -1) cut a string at every occurrence of the
  separator and keep empty pieces, also leading and trailing ones: a string with \<open>n\<close>
  spaces has \<open>n + 1\<close> pieces, and the empty string has the one piece \<open>''''\<close>.
\<close>

fun split :: "char \<Rightarrow> string \<Rightarrow> string list" where
  "split sep [] = [[]]"
| "split sep (c # cs) =
     (if c = sep then [] # split sep cs
      else (case split sep cs of
              [] \<Rightarrow> [[c]]
            | piece # pieces \<Rightarrow> (c # piece) # pieces))"

abbreviation space :: char where
  "space \<equiv> CHR '' ''"

subsection \<open>The RDD primitives\<close>

definition map_rdd :: "('a \<Rightarrow> 'b) \<Rightarrow> 'a list \<Rightarrow> 'b list" where
  "map_rdd f rdd = map f rdd"

definition flatMap :: "('a \<Rightarrow> 'b list) \<Rightarrow> 'a list \<Rightarrow> 'b list" where
  "flatMap f rdd = concat (map f rdd)"

definition filter_rdd :: "('a \<Rightarrow> bool) \<Rightarrow> 'a list \<Rightarrow> 'a list" where
  "filter_rdd p rdd = filter p rdd"

text \<open>
  \<open>reduceByKey(func)\<close> merges the values of each key with \<open>func\<close>: the first value
  of a key is stored as it is, and every later one is combined into the stored value
  (\<open>d[k] = func(d[k], v) if k in d else v\<close>).
\<close>

fun mergeValue :: "('v \<Rightarrow> 'v \<Rightarrow> 'v) \<Rightarrow> 'k \<Rightarrow> 'v \<Rightarrow> ('k \<times> 'v) list \<Rightarrow> ('k \<times> 'v) list" where
  "mergeValue func k v [] = [(k, v)]"
| "mergeValue func k v ((k', v') # d) =
     (if k' = k then (k', func v' v) # d else (k', v') # mergeValue func k v d)"

definition combineByKey :: "('v \<Rightarrow> 'v \<Rightarrow> 'v) \<Rightarrow> ('k \<times> 'v) list \<Rightarrow> ('k \<times> 'v) list" where
  "combineByKey func kvs = foldl (\<lambda>d (k, v). mergeValue func k v d) [] kvs"

text \<open>
  The merged pairs come out of a shuffle, and the framework promises no particular order
  of the keys: \<open>part\<close> stands for the place the shuffle of this run gives each key, and
  every order of the keys is the one of some \<open>part\<close>. With the addition that the notebook
  passes, the merged value of a key does not depend on the order in which the partitions
  are combined.
\<close>

definition reduceByKey ::
  "('k \<Rightarrow> nat) \<Rightarrow> ('v \<Rightarrow> 'v \<Rightarrow> 'v) \<Rightarrow> ('k \<times> 'v) list \<Rightarrow> ('k \<times> 'v) list" where
  "reduceByKey part func kvs = sort_key (\<lambda>kv. part (fst kv)) (combineByKey func kvs)"

text \<open>
  \<open>sortBy(keyfunc, ascending)\<close> moves the elements through a shuffle of its own and
  sorts what arrives by the key, elements of equal key staying as they arrived (Python's
  \<open>sorted\<close> with \<open>reverse = not ascending\<close>). \<open>arrival\<close> stands for the order in which
  the elements arrive in this run.
\<close>

definition sortBy :: "('a \<Rightarrow> nat) \<Rightarrow> ('a \<Rightarrow> int) \<Rightarrow> bool \<Rightarrow> 'a list \<Rightarrow> 'a list" where
  "sortBy arrival keyfunc ascending rdd =
     (if ascending then sort_key keyfunc (sort_key arrival rdd)
      else sort_key (\<lambda>x. - keyfunc x) (sort_key arrival rdd))"

definition take_rdd :: "nat \<Rightarrow> 'a list \<Rightarrow> 'a list" where
  "take_rdd num rdd = take num rdd"

subsection \<open>The DataFrame primitives\<close>

text \<open>
  The rows of the DataFrames of the word count hold strings only; a row is the list of its
  fields in column order. \<open>spark.read.text\<close> gives the one column \<open>value\<close> (field 0), and
  \<open>withColumn("word", ...)\<close> appends the column \<open>word\<close> (field 1). Python's \<open>row[0]\<close> on
  a row of the text DataFrame reads field 0, which that row always has.
\<close>

type_synonym row = "string list"

definition col_value :: "row \<Rightarrow> string" where
  "col_value r = r ! 0"

definition col_word :: "row \<Rightarrow> string" where
  "col_word r = r ! 1"

text \<open>
  \<open>withColumn(name, explode(e))\<close>: one output row per element of the array \<open>e\<close> of the
  input row, the element appended as the new column.
\<close>

definition withColumn_explode :: "(row \<Rightarrow> string list) \<Rightarrow> row list \<Rightarrow> row list" where
  "withColumn_explode e df = concat (map (\<lambda>r. map (\<lambda>x. r @ [x]) (e r)) df)"

definition filter_df :: "(row \<Rightarrow> bool) \<Rightarrow> row list \<Rightarrow> row list" where
  "filter_df p df = filter p df"

text \<open>
  \<open>groupBy(c)\<close> collects the rows of each value of the column; \<open>count()\<close> gives one
  row per group, the value and the number of rows of the group, in the place the
  SQL shuffle of this run gives it. The number is a 64-bit \<open>long\<close> in Spark and an
  unbounded integer in Python; it never exceeds the number of rows read, and both are
  \<^typ>\<open>int\<close> here.
\<close>

definition groupBy :: "(row \<Rightarrow> string) \<Rightarrow> row list \<Rightarrow> (string \<times> row list) list" where
  "groupBy c df = map (\<lambda>k. (k, filter (\<lambda>r. c r = k) df)) (remdups (map c df))"

definition count_grouped ::
  "(string \<Rightarrow> nat) \<Rightarrow> (string \<times> row list) list \<Rightarrow> (string \<times> int) list" where
  "count_grouped part groups =
     sort_key (\<lambda>kv. part (fst kv)) (map (\<lambda>(k, g). (k, int (length g))) groups)"

text \<open>
  \<open>orderBy(c, ascending)\<close> followed by \<open>limit(num)\<close> runs as one top-K operator. It
  returns \<open>num\<close> rows (all rows, if there are fewer) in the order of \<open>c\<close>, and no row it
  leaves out comes before a row it returns. Which rows of equal \<open>c\<close> it returns, and in
  which order, is not tied to the order in which the rows are delivered and need not be the
  same in two runs: \<open>ties\<close> stands for the choice of this run, rows of equal \<open>c\<close> coming
  in the order of \<open>ties\<close>.
\<close>

definition orderBy :: "('a \<Rightarrow> nat) \<Rightarrow> ('a \<Rightarrow> int) \<Rightarrow> bool \<Rightarrow> 'a list \<Rightarrow> 'a list" where
  "orderBy ties c ascending df =
     (if ascending then sort_key c (sort_key ties df)
      else sort_key (\<lambda>x. - c x) (sort_key ties df))"

definition limit :: "nat \<Rightarrow> 'a list \<Rightarrow> 'a list" where
  "limit num df = take num df"

subsection \<open>A run of the framework, the file store and the console\<close>

datatype pyval = PyStr string | PyInt int | PyNone

text \<open>
  What reaches the console: a printed string, a printed tuple, and the table that
  \<open>show()\<close> prints (the column names and the first rows).
\<close>

datatype printed =
    Printed string
  | PrintedTuple "pyval list"
  | Shown "string list" "pyval list list"

datatype error =
    PathDoesNotExist string
  | LengthMismatch nat nat
  | CannotAcceptObject string pyval
  | OutOfRange string pyval
  | JobAborted string

text \<open>
  The calls at which the framework does work and can raise: \<open>spark.read.text\<close>, which
  resolves the path at once, and the actions \<open>take\<close>, \<open>show\<close> and \<open>collect\<close>, which run
  the jobs of the transformations before them.
\<close>

datatype call = CallReadText | CallTake | CallShow | CallCollect

text \<open>
  What the cells take from the framework beyond the values it computes is particular to a
  run: the order in which each shuffle delivers what the program leaves unordered, the
  choice of the top-K operator among rows of equal count, and the calls that fail for a
  reason of the framework's own (a lost executor, an aborted job). None of it is fixed by
  the input file, and the same session need not repeat it.
\<close>

record run =
  rdd_shuffle :: "string \<Rightarrow> nat"
  sort_arrival :: "string \<times> int \<Rightarrow> nat"
  sql_shuffle :: "string \<Rightarrow> nat"
  top_ties :: "string \<times> int \<Rightarrow> nat"
  faults :: "call \<Rightarrow> error option"

text \<open>
  A call raises the framework's own failure if the run has one for it, and otherwise gives
  its result, which may be a failure of the computation itself.
\<close>

definition attempt :: "run \<Rightarrow> call \<Rightarrow> error + 'a \<Rightarrow> error + 'a" where
  "attempt r c result = (case faults r c of Some e \<Rightarrow> Inl e | None \<Rightarrow> result)"

record world =
  files :: "string \<rightharpoonup> string list"
  console :: "printed list"

definition print :: "string \<Rightarrow> 'a world_scheme \<Rightarrow> 'a world_scheme" where
  "print s w = w\<lparr>console := console w @ [Printed s]\<rparr>"

definition print_tuple :: "pyval list \<Rightarrow> 'a world_scheme \<Rightarrow> 'a world_scheme" where
  "print_tuple t w = w\<lparr>console := console w @ [PrintedTuple t]\<rparr>"

text \<open>\<open>show()\<close> prints the first 20 rows.\<close>

definition show_df :: "string list \<Rightarrow> pyval list list \<Rightarrow> 'a world_scheme \<Rightarrow> 'a world_scheme" where
  "show_df cols df w = w\<lparr>console := console w @ [Shown cols (take 20 df)]\<rparr>"

text \<open>
  \<open>spark.read.text(path)\<close> resolves the path when it is called and raises if no file is
  there; otherwise it gives one row per line of the file.
\<close>

definition text_rows :: "string list \<Rightarrow> row list" where
  "text_rows lines = map (\<lambda>l. [l]) lines"

definition read_text :: "run \<Rightarrow> 'a world_scheme \<Rightarrow> string \<Rightarrow> error + row list" where
  "read_text r w path =
     attempt r CallReadText
       (case files w path of
          None \<Rightarrow> Inl (PathDoesNotExist path)
        | Some lines \<Rightarrow> Inr (text_rows lines))"

definition sherlock :: string where
  "sherlock = ''dbfs:/FileStore/sherlock.txt''"

text \<open>Python's \<open>str\<close> of an integer, as the f-string formats the count.\<close>

fun str_nat :: "nat \<Rightarrow> string" where
  "str_nat n =
     (if n < 10 then [char_of (48 + n)]
      else str_nat (n div 10) @ [char_of (48 + n mod 10)])"

declare str_nat.simps [simp del]

definition str_int :: "int \<Rightarrow> string" where
  "str_int i = (if i < 0 then CHR ''-'' # str_nat (nat (- i)) else str_nat (nat i))"

subsection \<open>RDD Example\<close>

definition lines_rdd :: "row list \<Rightarrow> string list" where
  "lines_rdd text_df = map_rdd (\<lambda>row. row ! 0) text_df"

definition word_counts_rdd :: "run \<Rightarrow> row list \<Rightarrow> (string \<times> int) list" where
  "word_counts_rdd spark text_df =
     reduceByKey (rdd_shuffle spark) (\<lambda>a b. a + b)
       (map_rdd (\<lambda>word. (word, 1))
         (filter_rdd (\<lambda>word. length word > 0)
           (flatMap (\<lambda>line. split space line) (lines_rdd text_df))))"

definition top_10_rdd :: "run \<Rightarrow> row list \<Rightarrow> (string \<times> int) list" where
  "top_10_rdd spark text_df =
     take_rdd 10 (sortBy (sort_arrival spark) (\<lambda>x. snd x) False (word_counts_rdd spark text_df))"

text \<open>
  The cell: the text is read, \<open>take(10)\<close> runs the jobs, and only then the heading and
  the ten lines are printed. A cell gives the world it leaves and the error it ends with,
  if a call raised.
\<close>

definition rdd_example :: "run \<Rightarrow> 'a world_scheme \<Rightarrow> 'a world_scheme \<times> error option" where
  "rdd_example spark w =
     (case read_text spark w sherlock of
        Inl e \<Rightarrow> (w, Some e)
      | Inr text_df \<Rightarrow>
          (case attempt spark CallTake (Inr (top_10_rdd spark text_df)) of
             Inl e \<Rightarrow> (w, Some e)
           | Inr top_10 \<Rightarrow>
               (foldl (\<lambda>w' (word, count). print (word @ '': '' @ str_int count) w')
                  (print ''Top 10 words using RDD:'' w) top_10,
                None)))"

subsection \<open>DataFrame Example\<close>

definition words_df :: "row list \<Rightarrow> row list" where
  "words_df lines_df =
     filter_df (\<lambda>r. length (col_word r) \<ge> 1)
       (withColumn_explode (\<lambda>r. split space (col_value r)) lines_df)"

definition word_counts_df :: "run \<Rightarrow> row list \<Rightarrow> (string \<times> int) list" where
  "word_counts_df spark lines_df =
     limit 10
       (orderBy (top_ties spark) (\<lambda>x. snd x) False
         (count_grouped (sql_shuffle spark) (groupBy col_word (words_df lines_df))))"

text \<open>
  The cell: the text is read, the heading is printed, and \<open>show()\<close> runs the jobs and
  prints the table.
\<close>

definition df_example :: "run \<Rightarrow> 'a world_scheme \<Rightarrow> 'a world_scheme \<times> error option" where
  "df_example spark w =
     (case read_text spark w sherlock of
        Inl e \<Rightarrow> (w, Some e)
      | Inr lines_df \<Rightarrow>
          (case attempt spark CallShow (Inr (word_counts_df spark lines_df)) of
             Inl e \<Rightarrow> (print ''Top 10 words using DataFrame:'' w, Some e)
           | Inr top_10 \<Rightarrow>
               (show_df [''word'', ''count'']
                  (map (\<lambda>(word, count). [PyStr word, PyInt count]) top_10)
                  (print ''Top 10 words using DataFrame:'' w),
                None)))"

subsection \<open>Example 2: conversion between RDD and DataFrame\<close>

datatype dataType = StringType | IntegerType

record StructField =
  name :: string
  dataType :: dataType
  nullable :: bool

definition data_rdd :: "pyval list list" where
  "data_rdd = [[PyStr ''apple'', PyInt 5], [PyStr ''banana'', PyInt 10], [PyStr ''apple'', PyInt 2]]"

definition schema :: "StructField list" where
  "schema =
     [\<lparr>name = ''fruit'', dataType = StringType, nullable = True\<rparr>,
      \<lparr>name = ''count'', dataType = IntegerType, nullable = True\<rparr>]"

text \<open>
  \<open>createDataFrame(rdd, schema)\<close> checks every object against the schema: the number of
  fields, \<open>None\<close> only in a nullable field, an \<open>int\<close> within 32 bits for
  \<open>IntegerType\<close>. \<open>StringType\<close> takes any object and stores its string form.
\<close>

fun verify_field :: "StructField \<Rightarrow> pyval \<Rightarrow> error + pyval" where
  "verify_field f PyNone =
     (if nullable f then Inr PyNone else Inl (CannotAcceptObject (name f) PyNone))"
| "verify_field f (PyStr s) =
     (case dataType f of
        StringType \<Rightarrow> Inr (PyStr s)
      | IntegerType \<Rightarrow> Inl (CannotAcceptObject (name f) (PyStr s)))"
| "verify_field f (PyInt i) =
     (case dataType f of
        StringType \<Rightarrow> Inr (PyStr (str_int i))
      | IntegerType \<Rightarrow>
          (if - 2147483648 \<le> i \<and> i \<le> 2147483647 then Inr (PyInt i)
           else Inl (OutOfRange (name f) (PyInt i))))"

fun verify_fields :: "StructField list \<Rightarrow> pyval list \<Rightarrow> error + pyval list" where
  "verify_fields (f # fs) (v # vs) =
     (case verify_field f v of
        Inl e \<Rightarrow> Inl e
      | Inr v' \<Rightarrow> (case verify_fields fs vs of Inl e \<Rightarrow> Inl e | Inr vs' \<Rightarrow> Inr (v' # vs')))"
| "verify_fields fs vs = Inr []"

definition verify_row :: "StructField list \<Rightarrow> pyval list \<Rightarrow> error + pyval list" where
  "verify_row fs obj =
     (if length obj \<noteq> length fs then Inl (LengthMismatch (length obj) (length fs))
      else verify_fields fs obj)"

fun createDataFrame :: "pyval list list \<Rightarrow> StructField list \<Rightarrow> error + pyval list list" where
  "createDataFrame [] fs = Inr []"
| "createDataFrame (obj # rdd) fs =
     (case verify_row fs obj of
        Inl e \<Rightarrow> Inl e
      | Inr r \<Rightarrow> (case createDataFrame rdd fs of Inl e \<Rightarrow> Inl e | Inr df \<Rightarrow> Inr (r # df)))"

text \<open>
  \<open>lambda row: (row[0], row[1])\<close> reads the two fields of a row; every row of a
  DataFrame of the two-column schema has both.
\<close>

definition rdd_from_df :: "pyval list list \<Rightarrow> pyval list list" where
  "rdd_from_df df = map_rdd (\<lambda>row. [row ! 0, row ! 1]) df"

text \<open>
  The cell, with any objects \<open>data\<close> in the place of the three pairs.
  \<open>createDataFrame\<close> checks nothing when it is called: the objects are checked when
  \<open>show()\<close> evaluates the DataFrame, after the first line is printed, and the first one
  that the schema rejects raises there. \<open>show()\<close> evaluates all rows of a DataFrame of at
  most 20 rows, as the one of the notebook is. \<open>collect()\<close> runs a job of its own.
\<close>

definition conversion_with ::
  "pyval list list \<Rightarrow> run \<Rightarrow> 'a world_scheme \<Rightarrow> 'a world_scheme \<times> error option" where
  "conversion_with data spark w =
     (let w1 = print ''DataFrame from RDD:'' w in
      case attempt spark CallShow (createDataFrame data schema) of
        Inl e \<Rightarrow> (w1, Some e)
      | Inr df_from_rdd \<Rightarrow>
          (let w2 = print ''RDD from DataFrame:'' (show_df (map name schema) df_from_rdd w1) in
           case attempt spark CallCollect (Inr (rdd_from_df df_from_rdd)) of
             Inl e \<Rightarrow> (w2, Some e)
           | Inr elements \<Rightarrow>
               (foldl (\<lambda>w' element. print_tuple element w') w2 elements, None)))"

definition conversion_example :: "run \<Rightarrow> 'a world_scheme \<Rightarrow> 'a world_scheme \<times> error option" where
  "conversion_example spark w = conversion_with data_rdd spark w"

subsection \<open>The vocabulary of the properties\<close>

text \<open>
  The input text is the list of the lines of the file. Its tokens are the pieces of its
  lines between single spaces, its words the tokens that are not empty, and the occurrences
  of a word are counted among the tokens.
\<close>

definition tokens :: "string list \<Rightarrow> string list" where
  "tokens lines = concat (map (split space) lines)"

definition words :: "string list \<Rightarrow> string list" where
  "words lines = filter (\<lambda>w. w \<noteq> []) (tokens lines)"

definition occurrences :: "string list \<Rightarrow> string \<Rightarrow> int" where
  "occurrences lines w = int (count_list (tokens lines) w)"

text \<open>
  A table of the words of a text holds each word once, with the number of its occurrences
  among the words.
\<close>

definition word_table :: "string list \<Rightarrow> (string \<times> int) list \<Rightarrow> bool" where
  "word_table lines xs \<longleftrightarrow>
     distinct (map fst xs) \<and>
     set xs = (\<lambda>w. (w, int (count_list (words lines) w))) ` set (words lines)"

text \<open>
  Two results agree above the cut: they have the same counts, place by place, and every
  pair whose count is larger than some count of its result is in the other result too. Two
  such results differ at most in the words of their smallest count.
\<close>

definition agree_above_cut :: "(string \<times> int) list \<Rightarrow> (string \<times> int) list \<Rightarrow> bool" where
  "agree_above_cut r d \<longleftrightarrow>
     map snd r = map snd d \<and>
     (\<forall>p\<in>set r. (\<exists>q\<in>set r. snd q < snd p) \<longrightarrow> p \<in> set d) \<and>
     (\<forall>p\<in>set d. (\<exists>q\<in>set d. snd q < snd p) \<longrightarrow> p \<in> set r)"

text \<open>What each word-count cell prints of a result.\<close>

definition rdd_lines :: "(string \<times> int) list \<Rightarrow> printed list" where
  "rdd_lines top_10 =
     Printed ''Top 10 words using RDD:'' #
     map (\<lambda>(word, count). Printed (word @ '': '' @ str_int count)) top_10"

definition df_table :: "(string \<times> int) list \<Rightarrow> printed list" where
  "df_table top_10 =
     [Printed ''Top 10 words using DataFrame:'',
      Shown [''word'', ''count''] (map (\<lambda>(word, count). [PyStr word, PyInt count]) top_10)]"

text \<open>
  A run in which no call fails and nothing is rearranged: what the program leaves unordered
  stays in the order of its first appearance. The other runs of the examples vary it.
\<close>

definition calm :: run where
  "calm = \<lparr>rdd_shuffle = (\<lambda>w. 0), sort_arrival = (\<lambda>p. 0), sql_shuffle = (\<lambda>w. 0),
            top_ties = (\<lambda>p. 0), faults = (\<lambda>c. None)\<rparr>"

text \<open>What a cell adds to the console.\<close>

definition printed_by ::
  "('a world_scheme \<Rightarrow> 'a world_scheme \<times> error option) \<Rightarrow> 'a world_scheme \<Rightarrow> printed list" where
  "printed_by cell w = drop (length (console w)) (console (fst (cell w)))"

section \<open>Properties of the primitives\<close>

subsection \<open>Splitting and merging\<close>

lemma split_nonempty: "split sep s \<noteq> []"
  by (induction s) (auto split: list.splits)

lemma split_no_sep: "w \<in> set (split sep s) \<Longrightarrow> sep \<notin> set w"
  by (induction s arbitrary: w) (auto split: list.splits if_splits)

lemma mergeValue_keys:
  "map fst (mergeValue f k v d) = (if k \<in> fst ` set d then map fst d else map fst d @ [k])"
proof (induction d)
  case Nil
  show ?case by simp
next
  case (Cons p d)
  obtain k' v' where p: "p = (k', v')" by (cases p)
  show ?case
  proof (cases "k' = k")
    case True
    then show ?thesis using p by simp
  next
    case False
    then show ?thesis using p Cons.IH by (cases "k \<in> fst ` set d") auto
  qed
qed

lemma mergeValue_map_of:
  "map_of (mergeValue f k v d) =
     (map_of d)(k \<mapsto> (case map_of d k of None \<Rightarrow> v | Some v' \<Rightarrow> f v' v))"
  by (induction d) (auto simp: fun_eq_iff)

lemma combineByKey_snoc:
  "combineByKey f (kvs @ [(k, v)]) = mergeValue f k v (combineByKey f kvs)"
  by (simp add: combineByKey_def)

lemma combineByKey_ones:
  "distinct (map fst (combineByKey (\<lambda>a b. a + b) (map (\<lambda>w. (w, 1::int)) ws))) \<and>
   map_of (combineByKey (\<lambda>a b. a + b) (map (\<lambda>w. (w, 1::int)) ws)) =
     (\<lambda>w. if w \<in> set ws then Some (int (count_list ws w)) else None)"
proof (induction ws rule: rev_induct)
  case Nil
  show ?case by (simp add: combineByKey_def)
next
  case (snoc x xs)
  let ?d = "combineByKey (\<lambda>a b. a + b) (map (\<lambda>w. (w, 1::int)) xs)"
  have step: "combineByKey (\<lambda>a b. a + b) (map (\<lambda>w. (w, 1::int)) (xs @ [x])) = mergeValue (\<lambda>a b. a + b) x 1 ?d"
    by (simp add: combineByKey_snoc)
  have keys: "fst ` set ?d = set xs"
  proof -
    have "fst ` set ?d = dom (map_of ?d)" by (simp add: dom_map_of_conv_image_fst)
    also have "\<dots> = set xs" using snoc.IH by (auto simp: dom_def)
    finally show ?thesis .
  qed
  show ?case
    unfolding step
    using snoc.IH keys
    by (auto simp: mergeValue_keys mergeValue_map_of fun_eq_iff)
qed

lemma combineByKey_ones_set:
  "set (combineByKey (\<lambda>a b. a + b) (map (\<lambda>w. (w, 1::int)) ws)) =
     (\<lambda>w. (w, int (count_list ws w))) ` set ws"
proof -
  let ?d = "combineByKey (\<lambda>a b. a + b) (map (\<lambda>w. (w, 1::int)) ws)"
  have d: "distinct (map fst ?d)" and m: "map_of ?d = (\<lambda>w. if w \<in> set ws then Some (int (count_list ws w)) else None)"
    using combineByKey_ones[of ws] by blast+
  have "(k, v) \<in> set ?d \<longleftrightarrow> (k, v) \<in> (\<lambda>w. (w, int (count_list ws w))) ` set ws" for k v
  proof -
    have "(k, v) \<in> set ?d \<longleftrightarrow> map_of ?d k = Some v" using d by simp
    also have "\<dots> \<longleftrightarrow> (k \<in> set ws \<and> v = int (count_list ws k))" unfolding m by auto
    finally show ?thesis by auto
  qed
  then show ?thesis by auto
qed

subsection \<open>The counted words of both pipelines\<close>

lemma rdd_words:
  "filter_rdd (\<lambda>word. length word > 0) (flatMap (\<lambda>line. split space line) (lines_rdd (text_rows ls))) = words ls"
  by (simp add: filter_rdd_def flatMap_def lines_rdd_def map_rdd_def text_rows_def words_def tokens_def comp_def)

lemma exploded_words:
  "map col_word (withColumn_explode (\<lambda>r. split space (col_value r)) (text_rows ls)) = tokens ls"
  by (induction ls) (simp_all add: withColumn_explode_def text_rows_def tokens_def col_word_def col_value_def comp_def)

lemma df_words: "map col_word (words_df (text_rows ls)) = words ls"
proof -
  have "map col_word (filter (\<lambda>r. length (col_word r) \<ge> 1) rs) = filter (\<lambda>w. w \<noteq> []) (map col_word rs)" for rs
    by (induction rs) (auto simp: Suc_le_eq)
  then show ?thesis
    by (simp add: words_df_def filter_df_def exploded_words words_def)
qed

lemma count_list_words: "w \<noteq> [] \<Longrightarrow> count_list (words ls) w = count_list (tokens ls) w"
proof -
  have "w \<noteq> [] \<Longrightarrow> count_list (filter (\<lambda>w. w \<noteq> []) xs) w = count_list xs w" for xs
    by (induction xs) auto
  then show "w \<noteq> [] \<Longrightarrow> ?thesis" by (simp add: words_def)
qed

lemma length_group: "length (filter (\<lambda>r. c r = k) df) = count_list (map c df) k"
  by (induction df) auto

lemma words_nonempty: "w \<in> set (words ls) \<Longrightarrow> w \<noteq> [] \<and> space \<notin> set w \<and> w \<in> set (tokens ls)"
  by (auto simp: words_def tokens_def dest: split_no_sep)

lemma rdd_counts_eq:
  "word_counts_rdd spark (text_rows ls) =
     sort_key (\<lambda>kv. rdd_shuffle spark (fst kv)) (combineByKey (\<lambda>a b. a + b) (map (\<lambda>w. (w, 1::int)) (words ls)))"
  unfolding word_counts_rdd_def reduceByKey_def rdd_words map_rdd_def ..

lemma rdd_counts_distinct: "distinct (map fst (word_counts_rdd spark (text_rows ls)))"
proof -
  have "mset (map fst (word_counts_rdd spark (text_rows ls))) = mset (map fst (combineByKey (\<lambda>a b. a + b) (map (\<lambda>w. (w, 1::int)) (words ls))))"
    by (simp add: rdd_counts_eq)
  then show ?thesis using combineByKey_ones[of "words ls"] by (metis mset_eq_imp_distinct_iff)
qed

lemma rdd_counts_set:
  "set (word_counts_rdd spark (text_rows ls)) = (\<lambda>w. (w, int (count_list (words ls) w))) ` set (words ls)"
  by (simp add: rdd_counts_eq combineByKey_ones_set)

lemma df_counts_distinct: "distinct (map fst (count_grouped part (groupBy col_word (words_df (text_rows ls)))))"
proof -
  have "mset (map fst (count_grouped part (groupBy col_word (words_df (text_rows ls))))) = mset (remdups (words ls))"
    by (simp add: count_grouped_def groupBy_def df_words comp_def multiset.map_comp)
  then show ?thesis by (metis mset_eq_imp_distinct_iff distinct_remdups)
qed

lemma df_counts_set:
  "set (count_grouped part (groupBy col_word (words_df (text_rows ls)))) = (\<lambda>w. (w, int (count_list (words ls) w))) ` set (words ls)"
  by (simp add: count_grouped_def groupBy_def df_words comp_def length_group image_image)

lemma word_table_rearranged: "word_table ls xs \<Longrightarrow> word_table ls (sort_key f xs)"
proof -
  assume t: "word_table ls xs"
  have "mset (map fst (sort_key f xs)) = mset (map fst xs)" by simp
  then have "distinct (map fst (sort_key f xs)) = distinct (map fst xs)"
    by (rule mset_eq_imp_distinct_iff)
  then show ?thesis using t by (simp add: word_table_def)
qed

lemma rdd_word_table: "word_table ls (word_counts_rdd spark (text_rows ls))"
  by (simp add: word_table_def rdd_counts_distinct rdd_counts_set)

lemma df_word_table:
  "word_table ls (count_grouped part (groupBy col_word (words_df (text_rows ls))))"
  by (simp add: word_table_def df_counts_distinct df_counts_set)

lemma word_table_distinct: "word_table ls xs \<Longrightarrow> distinct xs"
  by (simp add: word_table_def distinct_map)

lemma word_table_mset:
  assumes "word_table ls xs" "word_table ls ys"
  shows "mset xs = mset ys"
proof -
  have "set xs = set ys" using assms by (simp add: word_table_def)
  then show ?thesis
    using word_table_distinct[OF assms(1)] word_table_distinct[OF assms(2)]
    by (simp add: set_eq_iff_mset_eq_distinct)
qed

lemma word_table_length:
  assumes "word_table ls xs"
  shows "length xs = card (set (words ls))"
proof -
  have "length xs = length (map fst xs)" by simp
  also have "\<dots> = card (set (map fst xs))"
    using assms by (simp only: word_table_def distinct_card)
  also have "set (map fst xs) = set (words ls)"
    using assms by (simp add: word_table_def image_image)
  finally show ?thesis .
qed

lemma word_table_member:
  assumes "word_table ls xs" "p \<in> set xs"
  shows "fst p \<in> set (words ls) \<and> snd p = occurrences ls (fst p)"
proof -
  have w: "fst p \<in> set (words ls)" and c: "snd p = int (count_list (words ls) (fst p))"
    using assms by (auto simp: word_table_def)
  have "fst p \<noteq> []" using words_nonempty[OF w] by blast
  then show ?thesis using w c by (simp add: occurrences_def count_list_words)
qed

lemma word_table_pair:
  assumes "word_table ls xs" "w \<in> set (words ls)"
  shows "(w, occurrences ls w) \<in> set xs"
proof -
  have "w \<noteq> []" using words_nonempty[OF assms(2)] by blast
  then have "occurrences ls w = int (count_list (words ls) w)"
    by (simp add: occurrences_def count_list_words)
  then show ?thesis using assms by (auto simp: word_table_def)
qed

lemma word_table_key:
  assumes "word_table ls xs" "p \<in> set xs" "q \<in> set xs" "fst p = fst q"
  shows "p = q"
proof -
  obtain k v where pk: "p = (k, v)" by (cases p)
  obtain v' where qk: "q = (k, v')" using assms(4) pk by (cases q) simp
  have "distinct (map fst xs)" using assms(1) by (simp add: word_table_def)
  then have "v = v'" using assms(2,3) unfolding pk qk by (rule eq_key_imp_eq_value)
  then show ?thesis by (simp add: pk qk)
qed

subsection \<open>Sorting by count and cutting\<close>

lemma descending_sorted: "sorted_wrt (\<lambda>a b. snd b \<le> snd a) (sort_key (\<lambda>x. - snd x) (xs :: ('a \<times> int) list))"
proof -
  have "sorted (map (\<lambda>x. - snd x) (sort_key (\<lambda>x. - snd x) xs))" by (rule sorted_sort_key)
  then show ?thesis by (simp add: sorted_wrt_map)
qed

lemma top_sorted: "sorted_wrt (\<lambda>a b. b \<le> a) (map snd (take k (sort_key (\<lambda>x. - snd x) (xs :: ('a \<times> int) list))))"
  using descending_sorted[of xs] by (simp add: sorted_wrt_map sorted_wrt_take)

lemma top_maximal:
  fixes xs :: "('a \<times> int) list"
  assumes "x \<in> set (take k (sort_key (\<lambda>x. - snd x) xs))" "y \<in> set xs" "y \<notin> set (take k (sort_key (\<lambda>x. - snd x) xs))"
  shows "snd y \<le> snd x"
proof -
  let ?s = "sort_key (\<lambda>x. - snd x) xs"
  have "y \<in> set ?s" using assms(2) by simp
  then have "y \<in> set (take k ?s) \<union> set (drop k ?s)" by (metis append_take_drop_id set_append)
  then have y: "y \<in> set (drop k ?s)" using assms(3) by blast
  have "sorted_wrt (\<lambda>a b. snd b \<le> snd a) (take k ?s @ drop k ?s)" using descending_sorted[of xs] by simp
  then show ?thesis using assms(1) y unfolding sorted_wrt_append by blast
qed

lemma top_counts:
  fixes xs ys :: "('a \<times> int) list"
  assumes "mset xs = mset ys"
  shows "map snd (sort_key (\<lambda>x. - snd x) xs) = map snd (sort_key (\<lambda>x. - snd x) ys)"
proof -
  have key: "map (\<lambda>x. - snd x) (sort_key (\<lambda>x. - snd x) zs) = sort (map (\<lambda>x. - snd x) zs)" for zs :: "('a \<times> int) list"
    by (rule sym, rule properties_for_sort) (simp_all add: sorted_sort_key)
  have "mset (map (\<lambda>x. - snd x) xs) = mset (map (\<lambda>x. - snd x) ys)" using assms by simp
  then have "sort (map (\<lambda>x. - snd x) xs) = sort (map (\<lambda>x. - snd x) ys)"
    by (metis properties_for_sort sorted_sort mset_sort)
  then have "map (\<lambda>x. - snd x) (sort_key (\<lambda>x. - snd x) xs) = map (\<lambda>x. - snd x) (sort_key (\<lambda>x. - snd x) ys)"
    by (simp add: key)
  then have "map uminus (map (\<lambda>x. - snd x) (sort_key (\<lambda>x. - snd x) xs)) =
             map uminus (map (\<lambda>x. - snd x) (sort_key (\<lambda>x. - snd x) ys))"
    by (rule arg_cong)
  then show ?thesis by (simp add: comp_def)
qed

lemma filter_prefix:
  fixes g :: "'a \<Rightarrow> int"
  assumes "sorted_wrt (\<lambda>a b. g b \<le> g a) xs"
  shows "filter (\<lambda>x. m \<le> g x) xs = take (length (filter (\<lambda>x. m \<le> g x) xs)) xs"
  using assms
proof (induction xs)
  case Nil
  show ?case by simp
next
  case (Cons x xs)
  show ?case
  proof (cases "m \<le> g x")
    case True
    then show ?thesis using Cons by simp
  next
    case False
    then have "\<forall>y\<in>set xs. \<not> m \<le> g y" using Cons.prems by auto
    then have "filter (\<lambda>x. m \<le> g x) xs = []" by (simp add: filter_empty_conv)
    then show ?thesis using False by simp
  qed
qed

lemma top_set:
  fixes xs ys :: "('a \<times> int) list"
  assumes m: "mset xs = mset ys" and d: "distinct xs"
    and cut: "\<forall>y\<in>set xs. y \<notin> set (take k (sort_key (\<lambda>x. - snd x) xs)) \<longrightarrow>
                (\<forall>x\<in>set (take k (sort_key (\<lambda>x. - snd x) xs)). snd y < snd x)"
  shows "set (take k (sort_key (\<lambda>x. - snd x) xs)) = set (take k (sort_key (\<lambda>x. - snd x) ys))"
proof (cases "k = 0 \<or> length xs \<le> k")
  case True
  have "length ys = length xs" using m by (metis size_mset)
  then show ?thesis using True m by (auto dest: mset_eq_setD)
next
  case False
  let ?sx = "sort_key (\<lambda>x. - snd x) xs" and ?sy = "sort_key (\<lambda>x. - snd x) ys"
  let ?R = "take k ?sx"
  have lenR: "length ?R = k" using False by simp
  then have ne: "?R \<noteq> []" using False by (metis length_0_conv)
  define mn where "mn = Min (snd ` set ?R)"
  have mn_le: "\<And>x. x \<in> set ?R \<Longrightarrow> mn \<le> snd x" by (simp add: mn_def)
  have "mn \<in> snd ` set ?R" unfolding mn_def using ne by (intro Min_in) auto
  then obtain x0 where x0: "x0 \<in> set ?R" "snd x0 = mn" by auto
  have dsx: "distinct ?sx" using d by simp
  have R_all: "filter (\<lambda>x. mn \<le> snd x) ?R = ?R" using mn_le by (simp add: filter_id_conv)
  have rest: "filter (\<lambda>x. mn \<le> snd x) (drop k ?sx) = []"
  proof -
    have "\<not> mn \<le> snd y" if "y \<in> set (drop k ?sx)" for y
    proof -
      have "y \<in> set xs" using that by (metis in_set_dropD set_sort)
      moreover have "y \<notin> set ?R"
        using that dsx by (metis append_take_drop_id distinct_append disjoint_iff)
      ultimately have "snd y < snd x0" using cut x0(1) by blast
      then show ?thesis using x0(2) by simp
    qed
    then show ?thesis by (simp add: filter_empty_conv)
  qed
  have fx: "filter (\<lambda>x. mn \<le> snd x) ?sx = ?R"
  proof -
    have "filter (\<lambda>x. mn \<le> snd x) ?sx = filter (\<lambda>x. mn \<le> snd x) (?R @ drop k ?sx)" by simp
    also have "\<dots> = ?R" unfolding filter_append R_all rest by simp
    finally show ?thesis .
  qed
  have "mset (filter (\<lambda>x. mn \<le> snd x) ?sy) = mset (filter (\<lambda>x. mn \<le> snd x) ?sx)"
    using m by simp
  then have fy_len: "length (filter (\<lambda>x. mn \<le> snd x) ?sy) = k"
    using fx lenR by (metis size_mset)
  have fy: "filter (\<lambda>x. mn \<le> snd x) ?sy = take k ?sy"
    using filter_prefix[OF descending_sorted[of ys], of mn] fy_len by simp
  have "set ?R = {x \<in> set xs. mn \<le> snd x}" using fx by (metis set_filter set_sort)
  moreover have "set (take k ?sy) = {x \<in> set ys. mn \<le> snd x}" using fy by (metis set_filter set_sort)
  moreover have "set xs = set ys" using m by (rule mset_eq_setD)
  ultimately show ?thesis by simp
qed

lemma top_above:
  fixes xs ys :: "('a \<times> int) list"
  assumes m: "mset xs = mset ys"
    and p: "p \<in> set (take k (sort_key (\<lambda>x. - snd x) xs))"
    and q: "q \<in> set (take k (sort_key (\<lambda>x. - snd x) xs))"
    and lt: "snd q < snd p"
  shows "p \<in> set (take k (sort_key (\<lambda>x. - snd x) ys))"
proof (rule ccontr)
  let ?sx = "sort_key (\<lambda>x. - snd x) xs" and ?sy = "sort_key (\<lambda>x. - snd x) ys"
  assume np: "p \<notin> set (take k ?sy)"
  have "p \<in> set ?sx" using p by (rule in_set_takeD)
  then have "p \<in> set xs" by simp
  then have py: "p \<in> set ys" using mset_eq_setD[OF m] by simp
  have kept: "\<forall>x\<in>set (take k ?sy). snd p \<le> snd x"
    using top_maximal[OF _ py np] by blast
  have "set ?sy = set (take k ?sy @ drop k ?sy)" by simp
  then have "p \<in> set (take k ?sy) \<union> set (drop k ?sy)"
    using py unfolding set_append by simp
  then have pd: "p \<in> set (drop k ?sy)" using np by blast
  then have "drop k ?sy \<noteq> []" by auto
  then have lk: "length (take k ?sy) = k" by simp
  have f1: "filter (\<lambda>x. snd p \<le> snd x) (take k ?sy) = take k ?sy"
    using kept by (simp add: filter_id_conv)
  have "filter (\<lambda>x. snd p \<le> snd x) (drop k ?sy) \<noteq> []"
    using pd by (auto simp: filter_empty_conv)
  then have f2: "0 < length (filter (\<lambda>x. snd p \<le> snd x) (drop k ?sy))" by simp
  have "filter (\<lambda>x. snd p \<le> snd x) ?sy =
      filter (\<lambda>x. snd p \<le> snd x) (take k ?sy @ drop k ?sy)"
    by simp
  also have "\<dots> = take k ?sy @ filter (\<lambda>x. snd p \<le> snd x) (drop k ?sy)"
    unfolding filter_append f1 ..
  finally have "length (filter (\<lambda>x. snd p \<le> snd x) ?sy) =
      k + length (filter (\<lambda>x. snd p \<le> snd x) (drop k ?sy))"
    using lk by simp
  then have "k < length (filter (\<lambda>x. snd p \<le> snd x) ?sy)" using f2 by simp
  moreover have "mset (filter (\<lambda>x. snd p \<le> snd x) ?sx) = mset (filter (\<lambda>x. snd p \<le> snd x) ?sy)"
    using m by simp
  then have "length (filter (\<lambda>x. snd p \<le> snd x) ?sx) = length (filter (\<lambda>x. snd p \<le> snd x) ?sy)"
    by (metis size_mset)
  ultimately have long: "k < length (filter (\<lambda>x. snd p \<le> snd x) ?sx)" by simp
  have pre: "filter (\<lambda>x. snd p \<le> snd x) ?sx = take (length (filter (\<lambda>x. snd p \<le> snd x) ?sx)) ?sx"
    by (rule filter_prefix[OF descending_sorted])
  have "take k (take (length (filter (\<lambda>x. snd p \<le> snd x) ?sx)) ?sx) = take k ?sx"
    using long by (simp add: min_def)
  then have "take k ?sx = take k (filter (\<lambda>x. snd p \<le> snd x) ?sx)"
    using pre by simp
  then have "q \<in> set (take k (filter (\<lambda>x. snd p \<le> snd x) ?sx))" using q by simp
  then have "q \<in> set (filter (\<lambda>x. snd p \<le> snd x) ?sx)" by (rule in_set_takeD)
  then show False using lt by simp
qed

lemma top_unique:
  fixes xs ys :: "('a \<times> int) list"
  assumes m: "mset xs = mset ys" and i: "inj_on snd (set xs)"
  shows "sort_key (\<lambda>x. - snd x) xs = sort_key (\<lambda>x. - snd x) ys"
proof (rule sort_key_inj_key_eq)
  show "mset xs = mset (sort_key (\<lambda>x. - snd x) ys)" using m by simp
  show "inj_on (\<lambda>x. - snd x) (set xs)" using i by (auto simp: inj_on_def)
  show "sorted (map (\<lambda>x. - snd x) (sort_key (\<lambda>x. - snd x) ys))" by (rule sorted_sort_key)
qed

subsection \<open>The two results\<close>

lemma rdd_top_form:
  "\<exists>xs. word_table ls xs \<and>
     top_10_rdd spark (text_rows ls) = take 10 (sort_key (\<lambda>x. - snd x) xs)"
proof (intro exI conjI)
  show "word_table ls (sort_key (sort_arrival spark) (word_counts_rdd spark (text_rows ls)))"
    by (rule word_table_rearranged[OF rdd_word_table])
  show "top_10_rdd spark (text_rows ls) =
      take 10 (sort_key (\<lambda>x. - snd x)
        (sort_key (sort_arrival spark) (word_counts_rdd spark (text_rows ls))))"
    by (simp add: top_10_rdd_def take_rdd_def sortBy_def)
qed

lemma df_top_form:
  "\<exists>ys. word_table ls ys \<and>
     word_counts_df spark (text_rows ls) = take 10 (sort_key (\<lambda>x. - snd x) ys)"
proof (intro exI conjI)
  show "word_table ls (sort_key (top_ties spark)
      (count_grouped (sql_shuffle spark) (groupBy col_word (words_df (text_rows ls)))))"
    by (rule word_table_rearranged[OF df_word_table])
  show "word_counts_df spark (text_rows ls) =
      take 10 (sort_key (\<lambda>x. - snd x) (sort_key (top_ties spark)
        (count_grouped (sql_shuffle spark) (groupBy col_word (words_df (text_rows ls))))))"
    by (simp add: word_counts_df_def limit_def orderBy_def)
qed

lemma top_length:
  assumes "word_table ls xs"
  shows "length (take k (sort_key (\<lambda>x. - snd x) xs)) = min k (card (set (words ls)))"
  using word_table_length[OF assms] by (simp add: min.commute)

lemma top_member:
  assumes t: "word_table ls xs" and p: "p \<in> set (take k (sort_key (\<lambda>x. - snd x) xs))"
  shows "fst p \<noteq> [] \<and> space \<notin> set (fst p) \<and> 1 \<le> snd p \<and> snd p = occurrences ls (fst p)"
proof -
  have "p \<in> set (sort_key (\<lambda>x. - snd x) xs)" using p by (rule in_set_takeD)
  then have "p \<in> set xs" by simp
  then have w: "fst p \<in> set (words ls)" and c: "snd p = occurrences ls (fst p)"
    using word_table_member[OF t] by blast+
  have n: "fst p \<noteq> []" "space \<notin> set (fst p)" "fst p \<in> set (tokens ls)"
    using words_nonempty[OF w] by blast+
  have "count_list (tokens ls) (fst p) \<noteq> 0" using n(3) by (simp only: count_list_0_iff not_not)
  then have "1 \<le> occurrences ls (fst p)" by (simp add: occurrences_def)
  then show ?thesis using n c by simp
qed

lemma top_excluded:
  assumes t: "word_table ls xs" and w: "w \<in> set (words ls)"
    and out: "w \<notin> fst ` set (take k (sort_key (\<lambda>x. - snd x) xs))"
  shows "(w, occurrences ls w) \<in> set xs \<and>
         (w, occurrences ls w) \<notin> set (take k (sort_key (\<lambda>x. - snd x) xs))"
  using word_table_pair[OF t w] out by force

lemma top_dominates:
  assumes t: "word_table ls xs" and p: "p \<in> set (take k (sort_key (\<lambda>x. - snd x) xs))"
    and w: "w \<in> set (words ls)" and out: "w \<notin> fst ` set (take k (sort_key (\<lambda>x. - snd x) xs))"
  shows "occurrences ls w \<le> snd p"
  using top_maximal[OF p, of "(w, occurrences ls w)"] top_excluded[OF t w out] by simp

lemma tops_agree:
  assumes "word_table ls xs" "word_table ls ys"
  shows "agree_above_cut (take k (sort_key (\<lambda>x. - snd x) xs)) (take k (sort_key (\<lambda>x. - snd x) ys))"
proof -
  have m: "mset xs = mset ys" by (rule word_table_mset[OF assms])
  have "map snd (take k (sort_key (\<lambda>x. - snd x) xs)) = map snd (take k (sort_key (\<lambda>x. - snd x) ys))"
    unfolding take_map[symmetric] using top_counts[OF m] by simp
  moreover have "\<forall>p\<in>set (take k (sort_key (\<lambda>x. - snd x) xs)).
      (\<exists>q\<in>set (take k (sort_key (\<lambda>x. - snd x) xs)). snd q < snd p) \<longrightarrow>
      p \<in> set (take k (sort_key (\<lambda>x. - snd x) ys))"
    using top_above[OF m] by blast
  moreover have "\<forall>p\<in>set (take k (sort_key (\<lambda>x. - snd x) ys)).
      (\<exists>q\<in>set (take k (sort_key (\<lambda>x. - snd x) ys)). snd q < snd p) \<longrightarrow>
      p \<in> set (take k (sort_key (\<lambda>x. - snd x) xs))"
    using top_above[OF m[symmetric]] by blast
  ultimately show ?thesis unfolding agree_above_cut_def by blast
qed

lemma tops_same_set:
  assumes tx: "word_table ls xs" and ty: "word_table ls ys"
    and cut: "\<forall>w\<in>set (words ls). w \<notin> fst ` set (take k (sort_key (\<lambda>x. - snd x) xs)) \<longrightarrow>
       (\<forall>p\<in>set (take k (sort_key (\<lambda>x. - snd x) xs)). occurrences ls w < snd p)"
  shows "set (take k (sort_key (\<lambda>x. - snd x) xs)) = set (take k (sort_key (\<lambda>x. - snd x) ys))"
proof (rule top_set[OF word_table_mset[OF tx ty] word_table_distinct[OF tx]], intro ballI impI)
  fix y x
  assume y: "y \<in> set xs" and ny: "y \<notin> set (take k (sort_key (\<lambda>x. - snd x) xs))"
    and x: "x \<in> set (take k (sort_key (\<lambda>x. - snd x) xs))"
  have yw: "fst y \<in> set (words ls)" and occ: "snd y = occurrences ls (fst y)"
    using word_table_member[OF tx y] by blast+
  have "fst y \<notin> fst ` set (take k (sort_key (\<lambda>x. - snd x) xs))"
  proof
    assume "fst y \<in> fst ` set (take k (sort_key (\<lambda>x. - snd x) xs))"
    then obtain z where z: "z \<in> set (take k (sort_key (\<lambda>x. - snd x) xs))" "fst z = fst y" by auto
    have "z \<in> set (sort_key (\<lambda>x. - snd x) xs)" using z(1) by (rule in_set_takeD)
    then have "z \<in> set xs" by simp
    then have "z = y" using word_table_key[OF tx _ y z(2)] by simp
    then show False using z(1) ny by simp
  qed
  then show "snd y < snd x" using cut yw x occ by auto
qed

lemma tops_few:
  assumes tx: "word_table ls xs" and ty: "word_table ls ys" and few: "card (set (words ls)) \<le> k"
  shows "set (take k (sort_key (\<lambda>x. - snd x) xs)) = set (take k (sort_key (\<lambda>x. - snd x) ys))"
proof -
  have "length xs \<le> k" "length ys \<le> k"
    using few word_table_length[OF tx] word_table_length[OF ty] by simp_all
  moreover have "set xs = set ys" using tx ty by (simp add: word_table_def)
  ultimately show ?thesis by simp
qed

lemma tops_equal:
  assumes tx: "word_table ls xs" and ty: "word_table ls ys"
    and inj: "inj_on (occurrences ls) (set (words ls))"
  shows "take k (sort_key (\<lambda>x. - snd x) xs) = take k (sort_key (\<lambda>x. - snd x) ys)"
proof -
  have "inj_on snd (set xs)"
  proof (rule inj_onI)
    fix p q
    assume p: "p \<in> set xs" and q: "q \<in> set xs" and e: "snd p = snd q"
    have "fst p \<in> set (words ls)" "fst q \<in> set (words ls)"
      "occurrences ls (fst p) = occurrences ls (fst q)"
      using word_table_member[OF tx p] word_table_member[OF tx q] e by simp_all
    then have "fst p = fst q" using inj by (simp add: inj_on_def)
    then show "p = q" using e by (simp add: prod_eq_iff)
  qed
  then show ?thesis using top_unique[OF word_table_mset[OF tx ty]] by simp
qed

subsection \<open>The cells as state transformers\<close>

lemma read_text_eq:
  "read_text spark w path =
     (case faults spark CallReadText of
        Some e \<Rightarrow> Inl e
      | None \<Rightarrow>
          (case files w path of
             None \<Rightarrow> Inl (PathDoesNotExist path)
           | Some ls \<Rightarrow> Inr (text_rows ls)))"
  by (simp add: read_text_def attempt_def)

lemma read_text_rows:
  "read_text spark w path = Inr t \<Longrightarrow> \<exists>ls. files w path = Some ls \<and> t = text_rows ls"
  by (auto simp: read_text_eq split: option.splits)

lemma print_loop:
  "foldl (\<lambda>w' (word, count). print (word @ '': '' @ str_int count) w') w0 xs =
     w0\<lparr>console := console w0 @ map (\<lambda>(word, count). Printed (word @ '': '' @ str_int count)) xs\<rparr>"
  by (induction xs arbitrary: w0) (auto simp: print_def)

lemma print_tuple_loop:
  "foldl (\<lambda>w' element. print_tuple element w') w0 xs =
     w0\<lparr>console := console w0 @ map PrintedTuple xs\<rparr>"
  by (induction xs arbitrary: w0) (simp_all add: print_tuple_def)

lemma rdd_example_eq:
  "rdd_example spark w =
     (case read_text spark w sherlock of
        Inl e \<Rightarrow> (w, Some e)
      | Inr text_df \<Rightarrow>
          (case faults spark CallTake of
             Some e \<Rightarrow> (w, Some e)
           | None \<Rightarrow> (w\<lparr>console := console w @ rdd_lines (top_10_rdd spark text_df)\<rparr>, None)))"
  unfolding rdd_example_def print_loop
  by (simp add: attempt_def print_def rdd_lines_def split: sum.splits option.splits)

lemma df_example_eq:
  "df_example spark w =
     (case read_text spark w sherlock of
        Inl e \<Rightarrow> (w, Some e)
      | Inr lines_df \<Rightarrow>
          (case faults spark CallShow of
             Some e \<Rightarrow> (w\<lparr>console := console w @ [Printed ''Top 10 words using DataFrame:'']\<rparr>, Some e)
           | None \<Rightarrow> (w\<lparr>console := console w @ df_table (word_counts_df spark lines_df)\<rparr>, None)))"
proof -
  have "length (word_counts_df spark t) \<le> 10" for t
    by (simp add: word_counts_df_def limit_def)
  then have "take 20 (map f (word_counts_df spark t)) = map f (word_counts_df spark t)"
    for t and f :: "string \<times> int \<Rightarrow> pyval list"
    by (simp add: order_trans[of _ 10 20])
  then show ?thesis
    by (simp add: df_example_def attempt_def print_def show_df_def df_table_def
        split: sum.splits option.splits)
qed

lemma attempt_Inr:
  "attempt spark c (Inr x) = (case faults spark c of Some e \<Rightarrow> Inl e | None \<Rightarrow> Inr x)"
  by (simp add: attempt_def)

lemma conversion_with_eq:
  "conversion_with data spark w =
     (case attempt spark CallShow (createDataFrame data schema) of
        Inl e \<Rightarrow> (w\<lparr>console := console w @ [Printed ''DataFrame from RDD:'']\<rparr>, Some e)
      | Inr df \<Rightarrow>
          (case faults spark CallCollect of
             Some e \<Rightarrow>
               (w\<lparr>console := console w @
                    [Printed ''DataFrame from RDD:'', Shown (map name schema) (take 20 df),
                     Printed ''RDD from DataFrame:'']\<rparr>, Some e)
           | None \<Rightarrow>
               (w\<lparr>console := console w @
                    [Printed ''DataFrame from RDD:'', Shown (map name schema) (take 20 df),
                     Printed ''RDD from DataFrame:''] @ map PrintedTuple (rdd_from_df df)\<rparr>, None)))"
  unfolding conversion_with_def print_tuple_loop
  by (simp add: attempt_Inr print_def show_df_def Let_def split: sum.splits option.splits)

lemma createDataFrame_data: "createDataFrame data_rdd schema = Inr data_rdd"
  by (simp add: data_rdd_def schema_def verify_row_def)

lemma rdd_from_df_data: "rdd_from_df data_rdd = data_rdd"
  by (simp add: data_rdd_def rdd_from_df_def map_rdd_def)

lemma rdd_example_frame: "\<exists>out. fst (rdd_example spark w) = w\<lparr>console := console w @ out\<rparr>"
proof -
  have "\<exists>out. w = w\<lparr>console := console w @ out\<rparr>" by (rule exI[of _ "[]"]) simp
  then show ?thesis
    unfolding rdd_example_eq by (auto split: sum.splits option.splits)
qed

lemma df_example_frame: "\<exists>out. fst (df_example spark w) = w\<lparr>console := console w @ out\<rparr>"
proof -
  have "\<exists>out. w = w\<lparr>console := console w @ out\<rparr>" by (rule exI[of _ "[]"]) simp
  then show ?thesis
    unfolding df_example_eq by (auto split: sum.splits option.splits)
qed

lemma conversion_with_frame:
  "\<exists>out. fst (conversion_with data spark w) = w\<lparr>console := console w @ out\<rparr>"
  unfolding conversion_with_eq by (auto split: sum.splits option.splits)

subsection \<open>Two results of one text, two runs of one cell\<close>

lemma results_agree:
  assumes "\<exists>xs. word_table ls xs \<and> r = take 10 (sort_key (\<lambda>x. - snd x) xs)"
    and "\<exists>ys. word_table ls ys \<and> d = take 10 (sort_key (\<lambda>x. - snd x) ys)"
  shows "agree_above_cut r d"
    and "(\<forall>w\<in>set (words ls). w \<notin> fst ` set r \<longrightarrow> (\<forall>p\<in>set r. occurrences ls w < snd p))
           \<Longrightarrow> set r = set d"
    and "card (set (words ls)) \<le> 10 \<Longrightarrow> set r = set d"
    and "distinct (map (occurrences ls) (remdups (words ls))) \<Longrightarrow> r = d"
proof -
  obtain xs ys where tx: "word_table ls xs" and r: "r = take 10 (sort_key (\<lambda>x. - snd x) xs)"
    and ty: "word_table ls ys" and d: "d = take 10 (sort_key (\<lambda>x. - snd x) ys)"
    using assms by blast
  show "agree_above_cut r d" unfolding r d by (rule tops_agree[OF tx ty])
  show "set r = set d"
    if "\<forall>w\<in>set (words ls). w \<notin> fst ` set r \<longrightarrow> (\<forall>p\<in>set r. occurrences ls w < snd p)"
    using that unfolding r d by (rule tops_same_set[OF tx ty])
  show "set r = set d" if "card (set (words ls)) \<le> 10"
    using that unfolding r d by (rule tops_few[OF tx ty])
  show "r = d" if "distinct (map (occurrences ls) (remdups (words ls)))"
  proof -
    have "inj_on (occurrences ls) (set (words ls))" using that by (simp add: distinct_map)
    then show ?thesis unfolding r d by (rule tops_equal[OF tx ty])
  qed
qed

lemma rdd_outcome:
  "rdd_example spark w =
     (case faults spark CallReadText of
        Some e \<Rightarrow> (w, Some e)
      | None \<Rightarrow>
          (case files w sherlock of
             None \<Rightarrow> (w, Some (PathDoesNotExist sherlock))
           | Some ls \<Rightarrow>
               (case faults spark CallTake of
                  Some e \<Rightarrow> (w, Some e)
                | None \<Rightarrow>
                    (w\<lparr>console := console w @ rdd_lines (top_10_rdd spark (text_rows ls))\<rparr>,
                     None))))"
  by (simp add: rdd_example_eq read_text_eq split: option.splits)

lemma df_outcome:
  "df_example spark w =
     (case faults spark CallReadText of
        Some e \<Rightarrow> (w, Some e)
      | None \<Rightarrow>
          (case files w sherlock of
             None \<Rightarrow> (w, Some (PathDoesNotExist sherlock))
           | Some ls \<Rightarrow>
               (case faults spark CallShow of
                  Some e \<Rightarrow>
                    (w\<lparr>console := console w @ [Printed ''Top 10 words using DataFrame:'']\<rparr>,
                     Some e)
                | None \<Rightarrow>
                    (w\<lparr>console := console w @ df_table (word_counts_df spark (text_rows ls))\<rparr>,
                     None))))"
  by (simp add: df_example_eq read_text_eq split: option.splits)

lemma rdd_runs:
  assumes f: "files w1 sherlock = files w2 sherlock" and r: "faults run1 = faults run2"
  shows "snd (rdd_example run1 w1) = snd (rdd_example run2 w2)"
    and "snd (rdd_example run1 w1) \<noteq> None \<Longrightarrow>
           printed_by (rdd_example run1) w1 = printed_by (rdd_example run2) w2"
    and "snd (rdd_example run1 w1) = None \<Longrightarrow>
           \<exists>ls. files w1 sherlock = Some ls \<and>
             printed_by (rdd_example run1) w1 = rdd_lines (top_10_rdd run1 (text_rows ls)) \<and>
             printed_by (rdd_example run2) w2 = rdd_lines (top_10_rdd run2 (text_rows ls))"
  using f r by (auto simp: rdd_outcome printed_by_def split: option.splits)

lemma df_runs:
  assumes f: "files w1 sherlock = files w2 sherlock" and r: "faults run1 = faults run2"
  shows "snd (df_example run1 w1) = snd (df_example run2 w2)"
    and "snd (df_example run1 w1) \<noteq> None \<Longrightarrow>
           printed_by (df_example run1) w1 = printed_by (df_example run2) w2"
    and "snd (df_example run1 w1) = None \<Longrightarrow>
           \<exists>ls. files w1 sherlock = Some ls \<and>
             printed_by (df_example run1) w1 = df_table (word_counts_df run1 (text_rows ls)) \<and>
             printed_by (df_example run2) w2 = df_table (word_counts_df run2 (text_rows ls))"
  using f r by (auto simp: df_outcome printed_by_def split: option.splits)

section \<open>The claims\<close>

text \<open>
  Claim C1, as amended. On every input text and in every run the results of the RDD
  pipeline and of the DataFrame pipeline agree above the cut: they have the same counts,
  place by place, and every pair whose count is larger than some count of its result is in
  the other result as well, so that the two differ at most in which words of their smallest
  count they hold. They hold the same set of pairs whenever every word left out of the RDD
  result occurs strictly less often than every word in it, and whenever the text has at
  most ten distinct words. They are the same list whenever no two words of the text occur
  equally often.
\<close>

theorem pipelines_agree:
  "agree_above_cut (top_10_rdd spark (text_rows ls)) (word_counts_df spark (text_rows ls)) \<and>
   ((\<forall>w\<in>set (words ls). w \<notin> fst ` set (top_10_rdd spark (text_rows ls)) \<longrightarrow>
       (\<forall>p\<in>set (top_10_rdd spark (text_rows ls)). occurrences ls w < snd p)) \<longrightarrow>
    set (top_10_rdd spark (text_rows ls)) = set (word_counts_df spark (text_rows ls))) \<and>
   (card (set (words ls)) \<le> 10 \<longrightarrow>
    set (top_10_rdd spark (text_rows ls)) = set (word_counts_df spark (text_rows ls))) \<and>
   (distinct (map (occurrences ls) (remdups (words ls))) \<longrightarrow>
    top_10_rdd spark (text_rows ls) = word_counts_df spark (text_rows ls))"
  using results_agree[OF rdd_top_form[of ls spark] df_top_form[of ls spark]] by blast

text \<open>
  The witness of C1. With \<open>a\<close> twice and ten words once, the pair of \<open>a\<close> is in both
  results although they differ in \<open>b\<close>; with ten words twice and \<open>k\<close> once, and with
  two distinct words, the results hold the same pairs; with counts one, two and three they
  are the same list.
\<close>

theorem pipelines_agree_witness:
  "(''a'', 2) \<in> set (top_10_rdd (calm\<lparr>top_ties := (\<lambda>p. if fst p = ''b'' then 1 else 0)\<rparr>)
                        (text_rows [''a a b c d e f g h i j k''])) \<and>
   (''b'', 1) \<in> set (top_10_rdd (calm\<lparr>top_ties := (\<lambda>p. if fst p = ''b'' then 1 else 0)\<rparr>)
                        (text_rows [''a a b c d e f g h i j k''])) \<and>
   (''b'', 1) \<notin> set (word_counts_df (calm\<lparr>top_ties := (\<lambda>p. if fst p = ''b'' then 1 else 0)\<rparr>)
                        (text_rows [''a a b c d e f g h i j k''])) \<and>
   (''a'', 2) \<in> set (word_counts_df (calm\<lparr>top_ties := (\<lambda>p. if fst p = ''b'' then 1 else 0)\<rparr>)
                        (text_rows [''a a b c d e f g h i j k''])) \<and>
   ''k'' \<notin> fst ` set (top_10_rdd calm (text_rows [''a a b b c c d d e e f f g g h h i i j j k''])) \<and>
   set (top_10_rdd calm (text_rows [''a a b b c c d d e e f f g g h h i i j j k''])) =
   set (word_counts_df calm (text_rows [''a a b b c c d d e e f f g g h h i i j j k''])) \<and>
   card (set (words [''the cat the''])) \<le> 10 \<and>
   set (top_10_rdd calm (text_rows [''the cat the''])) =
   set (word_counts_df calm (text_rows [''the cat the''])) \<and>
   distinct (map (occurrences [''x y y z z z'']) (remdups (words [''x y y z z z'']))) \<and>
   top_10_rdd (calm\<lparr>top_ties := (\<lambda>p. length (fst p))\<rparr>) (text_rows [''x y y z z z'']) =
   word_counts_df (calm\<lparr>top_ties := (\<lambda>p. length (fst p))\<rparr>) (text_rows [''x y y z z z''])"
proof -
  let ?A = "calm\<lparr>top_ties := (\<lambda>p. if fst p = ''b'' then 1 else 0)\<rparr>"
  let ?la = "[''a a b c d e f g h i j k'']"
  let ?lb = "[''a a b b c c d d e e f f g g h h i i j j k'']"
  let ?lc = "[''the cat the'']"
  let ?D = "calm\<lparr>top_ties := (\<lambda>p. length (fst p))\<rparr>"
  let ?ld = "[''x y y z z z'']"
  have a: "(''a'', 2) \<in> set (top_10_rdd ?A (text_rows ?la))" by code_simp
  have b: "(''b'', 1) \<in> set (top_10_rdd ?A (text_rows ?la))" by code_simp
  have nb: "(''b'', 1) \<notin> set (word_counts_df ?A (text_rows ?la))" by code_simp
  have "agree_above_cut (top_10_rdd ?A (text_rows ?la)) (word_counts_df ?A (text_rows ?la))"
    using pipelines_agree[of ?A ?la] by blast
  then have "\<forall>p\<in>set (top_10_rdd ?A (text_rows ?la)).
      (\<exists>q\<in>set (top_10_rdd ?A (text_rows ?la)). snd q < snd p) \<longrightarrow>
      p \<in> set (word_counts_df ?A (text_rows ?la))"
    unfolding agree_above_cut_def by blast
  then have a': "(''a'', 2) \<in> set (word_counts_df ?A (text_rows ?la))" using a b by force
  have cut: "\<forall>w\<in>set (words ?lb). w \<notin> fst ` set (top_10_rdd calm (text_rows ?lb)) \<longrightarrow>
       (\<forall>p\<in>set (top_10_rdd calm (text_rows ?lb)). occurrences ?lb w < snd p)"
    by code_simp
  have k: "''k'' \<notin> fst ` set (top_10_rdd calm (text_rows ?lb))" by code_simp
  have sb: "set (top_10_rdd calm (text_rows ?lb)) = set (word_counts_df calm (text_rows ?lb))"
    using pipelines_agree[of calm ?lb] cut by blast
  have few: "card (set (words ?lc)) \<le> 10" by code_simp
  have sc: "set (top_10_rdd calm (text_rows ?lc)) = set (word_counts_df calm (text_rows ?lc))"
    using pipelines_agree[of calm ?lc] few by blast
  have dist: "distinct (map (occurrences ?ld) (remdups (words ?ld)))" by code_simp
  have sd: "top_10_rdd ?D (text_rows ?ld) = word_counts_df ?D (text_rows ?ld)"
    using pipelines_agree[of ?D ?ld] dist by blast
  show ?thesis using a b nb a' k sb few sc dist sd by blast
qed

text \<open>
  Claim C1 as stated fails. Eleven words occur once each. In this run the RDD result
  holds the first ten as they appear and leaves out \<open>k\<close>, and the top-K operator of the
  DataFrame pipeline puts the longer word last and leaves out \<open>jj\<close>.
\<close>

theorem pipelines_agree_counterexample:
  "set (top_10_rdd (calm\<lparr>top_ties := (\<lambda>p. length (fst p))\<rparr>)
          (text_rows [''jj a b c d e f g h i k''])) \<noteq>
   set (word_counts_df (calm\<lparr>top_ties := (\<lambda>p. length (fst p))\<rparr>)
          (text_rows [''jj a b c d e f g h i k'']))"
  by code_simp



text \<open>
  Claim C3. The result of each pipeline has as many pairs as the text has distinct words,
  and ten when it has more.
\<close>

theorem result_length:
  "length (top_10_rdd spark (text_rows ls)) = min 10 (card (set (words ls))) \<and>
   length (word_counts_df spark (text_rows ls)) = min 10 (card (set (words ls)))"
proof -
  obtain xs ys where "word_table ls xs" "word_table ls ys"
    and "top_10_rdd spark (text_rows ls) = take 10 (sort_key (\<lambda>x. - snd x) xs)"
    and "word_counts_df spark (text_rows ls) = take 10 (sort_key (\<lambda>x. - snd x) ys)"
    using rdd_top_form[of ls spark] df_top_form[of ls spark] by blast
  then show ?thesis using top_length[of ls] by simp
qed

text \<open>
  Claim C4, as amended. Take two runs of a word-count cell in worlds whose input file has
  the same contents, with the same calls failing in both; the runs may differ in every
  order the framework chooses, and the worlds in their other files and in what was printed
  before. Both runs end with the same error or both with none. If they fail they print the
  same. If they succeed, each prints its result of the same text, and the two results agree
  above the cut: the same counts, place by place, and the same pairs above the smallest
  count. The results hold the same pairs whenever every word left out of the first occurs
  strictly less often than every word in it, and the two runs print exactly the same
  whenever no two words of the text occur equally often. Which words of equal count are
  printed, and in which order, is not fixed by the file.
\<close>

theorem output_determined:
  assumes "files w1 sherlock = files w2 sherlock" and "faults run1 = faults run2"
  shows
    "snd (rdd_example run1 w1) = snd (rdd_example run2 w2) \<and>
     snd (df_example run1 w1) = snd (df_example run2 w2) \<and>
     (snd (rdd_example run1 w1) \<noteq> None \<longrightarrow>
        printed_by (rdd_example run1) w1 = printed_by (rdd_example run2) w2) \<and>
     (snd (df_example run1 w1) \<noteq> None \<longrightarrow>
        printed_by (df_example run1) w1 = printed_by (df_example run2) w2) \<and>
     (snd (rdd_example run1 w1) = None \<longrightarrow>
        (\<exists>ls. files w1 sherlock = Some ls \<and>
           printed_by (rdd_example run1) w1 = rdd_lines (top_10_rdd run1 (text_rows ls)) \<and>
           printed_by (rdd_example run2) w2 = rdd_lines (top_10_rdd run2 (text_rows ls)) \<and>
           agree_above_cut (top_10_rdd run1 (text_rows ls)) (top_10_rdd run2 (text_rows ls)) \<and>
           ((\<forall>w\<in>set (words ls). w \<notin> fst ` set (top_10_rdd run1 (text_rows ls)) \<longrightarrow>
               (\<forall>p\<in>set (top_10_rdd run1 (text_rows ls)). occurrences ls w < snd p)) \<longrightarrow>
            set (top_10_rdd run1 (text_rows ls)) = set (top_10_rdd run2 (text_rows ls))) \<and>
           (distinct (map (occurrences ls) (remdups (words ls))) \<longrightarrow>
            printed_by (rdd_example run1) w1 = printed_by (rdd_example run2) w2))) \<and>
     (snd (df_example run1 w1) = None \<longrightarrow>
        (\<exists>ls. files w1 sherlock = Some ls \<and>
           printed_by (df_example run1) w1 = df_table (word_counts_df run1 (text_rows ls)) \<and>
           printed_by (df_example run2) w2 = df_table (word_counts_df run2 (text_rows ls)) \<and>
           agree_above_cut (word_counts_df run1 (text_rows ls)) (word_counts_df run2 (text_rows ls)) \<and>
           ((\<forall>w\<in>set (words ls). w \<notin> fst ` set (word_counts_df run1 (text_rows ls)) \<longrightarrow>
               (\<forall>p\<in>set (word_counts_df run1 (text_rows ls)). occurrences ls w < snd p)) \<longrightarrow>
            set (word_counts_df run1 (text_rows ls)) = set (word_counts_df run2 (text_rows ls))) \<and>
           (distinct (map (occurrences ls) (remdups (words ls))) \<longrightarrow>
            printed_by (df_example run1) w1 = printed_by (df_example run2) w2)))"
proof (intro conjI impI)
  show "snd (rdd_example run1 w1) = snd (rdd_example run2 w2)"
    by (rule rdd_runs(1)[OF assms])
  show "snd (df_example run1 w1) = snd (df_example run2 w2)"
    by (rule df_runs(1)[OF assms])
  show "printed_by (rdd_example run1) w1 = printed_by (rdd_example run2) w2"
    if "snd (rdd_example run1 w1) \<noteq> None"
    using that by (rule rdd_runs(2)[OF assms])
  show "printed_by (df_example run1) w1 = printed_by (df_example run2) w2"
    if "snd (df_example run1 w1) \<noteq> None"
    using that by (rule df_runs(2)[OF assms])
next
  assume "snd (rdd_example run1 w1) = None"
  then obtain ls where ls: "files w1 sherlock = Some ls"
    and p1: "printed_by (rdd_example run1) w1 = rdd_lines (top_10_rdd run1 (text_rows ls))"
    and p2: "printed_by (rdd_example run2) w2 = rdd_lines (top_10_rdd run2 (text_rows ls))"
    using rdd_runs(3)[OF assms] by blast
  note a = results_agree[OF rdd_top_form[of ls run1] rdd_top_form[of ls run2]]
  have "distinct (map (occurrences ls) (remdups (words ls))) \<longrightarrow>
      printed_by (rdd_example run1) w1 = printed_by (rdd_example run2) w2"
    unfolding p1 p2 using a(4) by simp
  then show "\<exists>ls. files w1 sherlock = Some ls \<and>
           printed_by (rdd_example run1) w1 = rdd_lines (top_10_rdd run1 (text_rows ls)) \<and>
           printed_by (rdd_example run2) w2 = rdd_lines (top_10_rdd run2 (text_rows ls)) \<and>
           agree_above_cut (top_10_rdd run1 (text_rows ls)) (top_10_rdd run2 (text_rows ls)) \<and>
           ((\<forall>w\<in>set (words ls). w \<notin> fst ` set (top_10_rdd run1 (text_rows ls)) \<longrightarrow>
               (\<forall>p\<in>set (top_10_rdd run1 (text_rows ls)). occurrences ls w < snd p)) \<longrightarrow>
            set (top_10_rdd run1 (text_rows ls)) = set (top_10_rdd run2 (text_rows ls))) \<and>
           (distinct (map (occurrences ls) (remdups (words ls))) \<longrightarrow>
            printed_by (rdd_example run1) w1 = printed_by (rdd_example run2) w2)"
    using ls p1 p2 a(1) a(2) by blast
next
  assume "snd (df_example run1 w1) = None"
  then obtain ls where ls: "files w1 sherlock = Some ls"
    and p1: "printed_by (df_example run1) w1 = df_table (word_counts_df run1 (text_rows ls))"
    and p2: "printed_by (df_example run2) w2 = df_table (word_counts_df run2 (text_rows ls))"
    using df_runs(3)[OF assms] by blast
  note a = results_agree[OF df_top_form[of ls run1] df_top_form[of ls run2]]
  have "distinct (map (occurrences ls) (remdups (words ls))) \<longrightarrow>
      printed_by (df_example run1) w1 = printed_by (df_example run2) w2"
    unfolding p1 p2 using a(4) by simp
  then show "\<exists>ls. files w1 sherlock = Some ls \<and>
           printed_by (df_example run1) w1 = df_table (word_counts_df run1 (text_rows ls)) \<and>
           printed_by (df_example run2) w2 = df_table (word_counts_df run2 (text_rows ls)) \<and>
           agree_above_cut (word_counts_df run1 (text_rows ls)) (word_counts_df run2 (text_rows ls)) \<and>
           ((\<forall>w\<in>set (words ls). w \<notin> fst ` set (word_counts_df run1 (text_rows ls)) \<longrightarrow>
               (\<forall>p\<in>set (word_counts_df run1 (text_rows ls)). occurrences ls w < snd p)) \<longrightarrow>
            set (word_counts_df run1 (text_rows ls)) = set (word_counts_df run2 (text_rows ls))) \<and>
           (distinct (map (occurrences ls) (remdups (words ls))) \<longrightarrow>
            printed_by (df_example run1) w1 = printed_by (df_example run2) w2)"
    using ls p1 p2 a(1) a(2) by blast
qed

text \<open>
  The witness of C4: the two worlds differ in another file and in the earlier console, the
  two runs in three of their orders; the counts of the text are one, two and three, and
  both cells print the same in both runs.
\<close>

theorem output_determined_witness:
  "files \<lparr>files = [sherlock \<mapsto> [''x y y z z z'']], console = [Printed ''earlier'']\<rparr> sherlock =
   files \<lparr>files = [''dbfs:/FileStore/other.txt'' \<mapsto> [''dog''], sherlock \<mapsto> [''x y y z z z'']],
          console = []\<rparr> sherlock \<and>
   faults calm = faults (calm\<lparr>rdd_shuffle := length, sort_arrival := (\<lambda>p. length (fst p)),
                                 top_ties := (\<lambda>p. nat (snd p))\<rparr>) \<and>
   snd (rdd_example calm
          \<lparr>files = [sherlock \<mapsto> [''x y y z z z'']], console = [Printed ''earlier'']\<rparr>) = None \<and>
   distinct (map (occurrences [''x y y z z z'']) (remdups (words [''x y y z z z'']))) \<and>
   printed_by (rdd_example calm)
     \<lparr>files = [sherlock \<mapsto> [''x y y z z z'']], console = [Printed ''earlier'']\<rparr> =
   printed_by (rdd_example (calm\<lparr>rdd_shuffle := length, sort_arrival := (\<lambda>p. length (fst p)),
                                   top_ties := (\<lambda>p. nat (snd p))\<rparr>))
     \<lparr>files = [''dbfs:/FileStore/other.txt'' \<mapsto> [''dog''], sherlock \<mapsto> [''x y y z z z'']],
      console = []\<rparr> \<and>
   printed_by (df_example calm)
     \<lparr>files = [sherlock \<mapsto> [''x y y z z z'']], console = [Printed ''earlier'']\<rparr> =
   printed_by (df_example (calm\<lparr>rdd_shuffle := length, sort_arrival := (\<lambda>p. length (fst p)),
                                  top_ties := (\<lambda>p. nat (snd p))\<rparr>))
     \<lparr>files = [''dbfs:/FileStore/other.txt'' \<mapsto> [''dog''], sherlock \<mapsto> [''x y y z z z'']],
      console = []\<rparr>"
proof -
  let ?w1 = "\<lparr>files = [sherlock \<mapsto> [''x y y z z z'']], console = [Printed ''earlier'']\<rparr>"
  let ?w2 = "\<lparr>files = [''dbfs:/FileStore/other.txt'' \<mapsto> [''dog''], sherlock \<mapsto> [''x y y z z z'']],
              console = []\<rparr>"
  let ?r2 = "calm\<lparr>rdd_shuffle := length, sort_arrival := (\<lambda>p. length (fst p)),
                   top_ties := (\<lambda>p. nat (snd p))\<rparr>"
  have f: "files ?w1 sherlock = files ?w2 sherlock" by simp
  have r: "faults calm = faults ?r2" by simp
  have present: "files ?w1 sherlock = Some [''x y y z z z'']" by simp
  have ok: "snd (rdd_example calm ?w1) = None" "snd (df_example calm ?w1) = None"
    by (simp_all add: rdd_outcome df_outcome calm_def)
  have d: "distinct (map (occurrences [''x y y z z z'']) (remdups (words [''x y y z z z''])))"
    by code_simp
  note t = output_determined[OF f r]
  have "\<exists>ls. files ?w1 sherlock = Some ls \<and>
      (distinct (map (occurrences ls) (remdups (words ls))) \<longrightarrow>
         printed_by (rdd_example calm) ?w1 = printed_by (rdd_example ?r2) ?w2)"
    using t[THEN conjunct2, THEN conjunct2, THEN conjunct2, THEN conjunct2, THEN conjunct1,
        THEN mp, OF ok(1)]
    by (elim exE conjE) (rule exI, erule conjI, assumption)
  then have a: "printed_by (rdd_example calm) ?w1 = printed_by (rdd_example ?r2) ?w2"
    unfolding present using d by (elim exE conjE) simp
  have "\<exists>ls. files ?w1 sherlock = Some ls \<and>
      (distinct (map (occurrences ls) (remdups (words ls))) \<longrightarrow>
         printed_by (df_example calm) ?w1 = printed_by (df_example ?r2) ?w2)"
    using t[THEN conjunct2, THEN conjunct2, THEN conjunct2, THEN conjunct2, THEN conjunct2,
        THEN mp, OF ok(2)]
    by (elim exE conjE) (rule exI, erule conjI, assumption)
  then have b: "printed_by (df_example calm) ?w1 = printed_by (df_example ?r2) ?w2"
    unfolding present using d by (elim exE conjE) simp
  show ?thesis using f r ok(1) d a b by (intro conjI)
qed

text \<open>
  Claim C4 as stated fails: over the same file the RDD cell prints different lines in two
  runs that differ only in the order in which the pairs arrive at \<open>sortBy\<close>.
\<close>

theorem output_determined_counterexample:
  "printed_by (rdd_example calm)
     \<lparr>files = [sherlock \<mapsto> [''jj a b c d e f g h i k'']], console = []\<rparr> \<noteq>
   printed_by (rdd_example (calm\<lparr>sort_arrival := (\<lambda>p. length (fst p))\<rparr>))
     \<lparr>files = [sherlock \<mapsto> [''jj a b c d e f g h i k'']], console = []\<rparr>"
  by code_simp

text \<open>
  Claim C5. Each of the three cells leaves the world as it was apart from the console, to
  which it only appends; that holds when the cell fails, too.
\<close>

theorem only_console:
  "(\<exists>out. fst (rdd_example spark w) = w\<lparr>console := console w @ out\<rparr>) \<and>
   (\<exists>out. fst (df_example spark w) = w\<lparr>console := console w @ out\<rparr>) \<and>
   (\<exists>out. fst (conversion_example spark w) = w\<lparr>console := console w @ out\<rparr>)"
  unfolding conversion_example_def
  using rdd_example_frame df_example_frame conversion_with_frame by blast

text \<open>
  Claim C8. \<open>createDataFrame\<close> accepts the three pairs under the schema, and mapping
  the rows of the DataFrame back to pairs gives the three pairs again, in their order.
\<close>

theorem round_trip:
  "\<exists>df_from_rdd. createDataFrame data_rdd schema = Inr df_from_rdd \<and>
     rdd_from_df df_from_rdd =
       [[PyStr ''apple'', PyInt 5], [PyStr ''banana'', PyInt 10], [PyStr ''apple'', PyInt 2]]"
  using createDataFrame_data rdd_from_df_data by (simp add: data_rdd_def)

text \<open>
  Claim C9. Every pair of either result has a word that is not empty and holds no space,
  and a count of at least one that is the number of occurrences of the word among the
  tokens of the text.
\<close>

theorem result_pairs:
  assumes "p \<in> set (top_10_rdd spark (text_rows ls)) \<union> set (word_counts_df spark (text_rows ls))"
  shows "fst p \<noteq> [] \<and> space \<notin> set (fst p) \<and> 1 \<le> snd p \<and> snd p = occurrences ls (fst p)"
proof -
  obtain xs ys where "word_table ls xs" "word_table ls ys"
    and "top_10_rdd spark (text_rows ls) = take 10 (sort_key (\<lambda>x. - snd x) xs)"
    and "word_counts_df spark (text_rows ls) = take 10 (sort_key (\<lambda>x. - snd x) ys)"
    using rdd_top_form[of ls spark] df_top_form[of ls spark] by blast
  then show ?thesis using assms top_member[of ls _ p 10] by auto
qed

text \<open>
  The witness of C9: \<open>the\<close> occurs three times, in lines with double and trailing
  spaces and an empty line.
\<close>

theorem result_pairs_witness:
  "(''the'', 3) \<in> set (top_10_rdd calm (text_rows [''the cat  and the hat '', '''', ''the end'']))
               \<union> set (word_counts_df calm (text_rows [''the cat  and the hat '', '''', ''the end''])) \<and>
   occurrences [''the cat  and the hat '', '''', ''the end''] ''the'' = 3"
proof -
  have h: "(''the'', 3) \<in> set (top_10_rdd calm (text_rows [''the cat  and the hat '', '''', ''the end'']))
               \<union> set (word_counts_df calm (text_rows [''the cat  and the hat '', '''', ''the end'']))"
    by code_simp
  show ?thesis using result_pairs[OF h] h by simp
qed

text \<open>
  Claim C10. The counts of each result never increase along the result, and no word
  left out of a result occurs more often than a word in it.
\<close>

theorem result_order:
  "sorted_wrt (\<lambda>a b. b \<le> a) (map snd (top_10_rdd spark (text_rows ls))) \<and>
   sorted_wrt (\<lambda>a b. b \<le> a) (map snd (word_counts_df spark (text_rows ls))) \<and>
   (\<forall>p\<in>set (top_10_rdd spark (text_rows ls)). \<forall>w\<in>set (words ls).
      w \<notin> fst ` set (top_10_rdd spark (text_rows ls)) \<longrightarrow> occurrences ls w \<le> snd p) \<and>
   (\<forall>p\<in>set (word_counts_df spark (text_rows ls)). \<forall>w\<in>set (words ls).
      w \<notin> fst ` set (word_counts_df spark (text_rows ls)) \<longrightarrow> occurrences ls w \<le> snd p)"
proof -
  obtain xs ys where tx: "word_table ls xs" and ty: "word_table ls ys"
    and r: "top_10_rdd spark (text_rows ls) = take 10 (sort_key (\<lambda>x. - snd x) xs)"
    and d: "word_counts_df spark (text_rows ls) = take 10 (sort_key (\<lambda>x. - snd x) ys)"
    using rdd_top_form[of ls spark] df_top_form[of ls spark] by blast
  show ?thesis
    unfolding r d
    using top_sorted[of 10 xs] top_sorted[of 10 ys] top_dominates[OF tx] top_dominates[OF ty]
    by blast
qed

text \<open>
  The witness of C10: of eleven distinct words \<open>k\<close> is left out, and it occurs no more
  often than \<open>a\<close>.
\<close>

theorem result_order_witness:
  "(''a'', 2) \<in> set (top_10_rdd calm (text_rows [''a a b c d e f g h i j k''])) \<and>
   ''k'' \<in> set (words [''a a b c d e f g h i j k'']) \<and>
   ''k'' \<notin> fst ` set (top_10_rdd calm (text_rows [''a a b c d e f g h i j k''])) \<and>
   occurrences [''a a b c d e f g h i j k''] ''k'' \<le> 2"
proof -
  let ?L = "[''a a b c d e f g h i j k'']"
  have p: "(''a'', 2) \<in> set (top_10_rdd calm (text_rows ?L))" by code_simp
  have w: "''k'' \<in> set (words ?L)" by code_simp
  have out: "''k'' \<notin> fst ` set (top_10_rdd calm (text_rows ?L))" by code_simp
  have "\<forall>p\<in>set (top_10_rdd calm (text_rows ?L)). \<forall>w\<in>set (words ?L).
      w \<notin> fst ` set (top_10_rdd calm (text_rows ?L)) \<longrightarrow> occurrences ?L w \<le> snd p"
    using result_order[of calm ?L] by blast
  then have "occurrences ?L ''k'' \<le> 2" using p w out by force
  then show ?thesis using p w out by blast
qed

end
